theory Spec2Isabelle
  imports Main "HOL-Library.Char_ord" "HOL-Library.List_Lexorder" "HOL-Library.Multiset"
begin

section \<open>Data model of package errbag\<close>

text \<open>
  Collectors live on the heap and are compared by pointer identity, so the model keeps an
  explicit store. A pointer of type \<^verbatim>\<open>*ErrorBag\<close> is an address or nil.
\<close>

type_synonym addr = nat
type_synonym ptr = "addr option"

text \<open>
  A non-nil value of interface type \<^verbatim>\<open>error\<close>:
  \<^item> \<open>Leaf i s\<close>: an ordinary error (such as the result of \<^verbatim>\<open>errors.New\<close>) with identity
    \<open>i\<close> whose \<^verbatim>\<open>Error()\<close> text is \<open>s\<close>;
  \<^item> \<open>BagPtr p\<close>: a \<^verbatim>\<open>*ErrorBag\<close> held in the interface; \<open>BagPtr None\<close> is the nil
    pointer held in a non-nil interface;
  \<^item> \<open>Embedding d a\<close>: a live value of a type that embeds an ErrorBag through \<open>d\<close> levels
    of embedding (\<^verbatim>\<open>myErrorBag\<close>, \<^verbatim>\<open>otherThing\<close> of the tests) whose promoted
    \<^verbatim>\<open>errBag()\<close> yields the embedded collector at address \<open>a\<close>.
  The nil interface value is \<open>None :: err option\<close>.
\<close>

datatype err = Leaf nat string | BagPtr ptr | Embedding nat addr

text \<open>
  An \<^verbatim>\<open>ErrorFunc\<close> is a function value or nil. A callback is modelled by its identity; the
  error it returns is looked up in an environment \<open>orc\<close>, and every invocation is recorded
  in the state's call log. Callbacks do not touch the collectors themselves.
\<close>

type_synonym fid = nat
type_synonym ErrorFunc = "fid option"
type_synonym callbacks = "fid \<Rightarrow> err option"

text \<open>
  An \<^verbatim>\<open>ErrorWrapper\<close> is its \<^verbatim>\<open>WrapError\<close> method, taken to be a function of the
  error it is given (it may return nil); the \<^verbatim>\<open>wrapper\<close> field may hold nil.
\<close>

type_synonym ErrorWrapper = "err \<Rightarrow> err option"

record ErrorBag =
  errs :: "err list"
  wrapper :: "ErrorWrapper option"
  defers :: "ErrorFunc list"

record state =
  heap :: "addr \<Rightarrow> ErrorBag"
  nxt :: addr
  calls :: "fid list"

text \<open>A value passed in a variadic \<^verbatim>\<open>...interface{}\<close> slot.\<close>

datatype item = INil | IErr err | IFunc ErrorFunc | IOther

text \<open>
  How a call ends: it returns a value, it panics (nil dereference, call of a nil function,
  the explicit panic of \<^verbatim>\<open>stash\<close>), or the recursion budget of the model ran out.
\<close>

datatype 'a outcome = Returns 'a | Panics | OutOfFuel

section \<open>Operations\<close>

definition new_ErrorBag :: ErrorBag where
  "new_ErrorBag = \<lparr>errs = [], wrapper = None, defers = []\<rparr>"

text \<open>\<^verbatim>\<open>new(ErrorBag)\<close>: a fresh address holding the zero value.\<close>

definition alloc :: "state \<Rightarrow> state \<times> addr" where
  "alloc st = (st\<lparr>heap := (heap st)(nxt st := new_ErrorBag), nxt := Suc (nxt st)\<rparr>, nxt st)"

text \<open>\<^verbatim>\<open>eb.errs = append(eb.errs, err)\<close>\<close>

definition append_err :: "state \<Rightarrow> addr \<Rightarrow> err \<Rightarrow> state" where
  "append_err st a e = st\<lparr>heap := (heap st)(a := (heap st a)\<lparr>errs := errs (heap st a) @ [e]\<rparr>)\<rparr>"

definition AsErrorBag :: "err option \<Rightarrow> ptr" where
  "AsErrorBag err =
     (case err of
        None \<Rightarrow> None
      | Some (Leaf i s) \<Rightarrow> None
      | Some (BagPtr p) \<Rightarrow> p
      | Some (Embedding d a) \<Rightarrow> Some a)"

definition ErrorOrNil :: "state \<Rightarrow> ptr \<Rightarrow> err option" where
  "ErrorOrNil st eb =
     (case eb of
        None \<Rightarrow> None
      | Some a \<Rightarrow> if length (errs (heap st a)) = 0 then None else Some (BagPtr eb))"

definition Size :: "state \<Rightarrow> ptr \<Rightarrow> nat outcome" where
  "Size st eb = (case eb of None \<Rightarrow> Panics | Some a \<Rightarrow> Returns (length (errs (heap st a))))"

definition HasErrors :: "state \<Rightarrow> ptr \<Rightarrow> bool outcome" where
  "HasErrors st eb = (case eb of None \<Rightarrow> Panics | Some a \<Rightarrow> Returns (length (errs (heap st a)) > 0))"

definition Errors :: "state \<Rightarrow> ptr \<Rightarrow> err list outcome" where
  "Errors st eb = (case eb of None \<Rightarrow> Panics | Some a \<Rightarrow> Returns (errs (heap st a)))"

text \<open>
  A \<^verbatim>\<open>for _, x := range xs\<close> loop whose body may panic; the slice is read once, when the
  loop starts.
\<close>

fun range_loop :: "('a \<Rightarrow> state \<Rightarrow> state outcome) \<Rightarrow> 'a list \<Rightarrow> state \<Rightarrow> state outcome" where
  "range_loop body [] st = Returns st"
| "range_loop body (x # xs) st =
     (case body x st of
        Returns st' \<Rightarrow> range_loop body xs st'
      | Panics \<Rightarrow> Panics
      | OutOfFuel \<Rightarrow> OutOfFuel)"

text \<open>A call whose return value the caller ignores.\<close>

fun discard :: "('s \<times> 'r) outcome \<Rightarrow> 's outcome" where
  "discard (Returns (s, r)) = Returns s"
| "discard Panics = Panics"
| "discard OutOfFuel = OutOfFuel"

text \<open>
  \<^verbatim>\<open>add\<close> and \<^verbatim>\<open>Merge\<close> call each other; a collector stored inside a collector can make
  the recursion arbitrarily deep (or endless, on a cyclic store), so both take a budget
  of nested calls.
\<close>

fun add :: "nat \<Rightarrow> state \<Rightarrow> ptr \<Rightarrow> err option \<Rightarrow> (state \<times> err option) outcome"
  and Merge :: "nat \<Rightarrow> state \<Rightarrow> ptr \<Rightarrow> ptr \<Rightarrow> (state \<times> err option) outcome" where
  "add 0 st eb err = OutOfFuel"
| "add (Suc n) st eb err =
     (case err of
        None \<Rightarrow> Returns (st, ErrorOrNil st eb)
      | Some e \<Rightarrow>
          (case AsErrorBag err of
             Some oeb \<Rightarrow> Merge n st eb (Some oeb)
           | None \<Rightarrow>
               (case eb of
                  None \<Rightarrow> Panics
                | Some a \<Rightarrow> Returns (append_err st a e, Some (BagPtr eb)))))"
| "Merge 0 st eb oeb = OutOfFuel"
| "Merge (Suc n) st eb oeb =
     (case oeb of
        None \<Rightarrow> Returns (st, Some (BagPtr eb))
      | Some b \<Rightarrow>
          if eb \<noteq> oeb then
            (case range_loop (\<lambda>e s. discard (add n s eb (Some e))) (errs (heap st b)) st of
               Returns st' \<Rightarrow> Returns (st', Some (BagPtr eb))
             | Panics \<Rightarrow> Panics
             | OutOfFuel \<Rightarrow> OutOfFuel)
          else Returns (st, Some (BagPtr eb)))"

text \<open>\<^verbatim>\<open>stash\<close>: the fold over the variadic extras shared by New, Add and Return.\<close>

definition stash :: "nat \<Rightarrow> callbacks \<Rightarrow> state \<Rightarrow> ptr \<Rightarrow> item list \<Rightarrow> state outcome" where
  "stash n orc st eb items =
     range_loop
       (\<lambda>i s. case i of
                INil \<Rightarrow> Returns s
              | IErr v \<Rightarrow> discard (add n s eb (Some v))
              | IFunc v \<Rightarrow>
                  (case v of
                     None \<Rightarrow> Returns s
                   | Some f \<Rightarrow> discard (add n (s\<lparr>calls := calls s @ [f]\<rparr>) eb (orc f)))
              | IOther \<Rightarrow> Panics)
       items st"

definition New :: "nat \<Rightarrow> callbacks \<Rightarrow> state \<Rightarrow> err option \<Rightarrow> item list \<Rightarrow> (state \<times> ptr) outcome" where
  "New n orc st err others =
     (case err of
        None \<Rightarrow> Returns (st, None)
      | Some e \<Rightarrow>
          (case AsErrorBag err of
             Some a \<Rightarrow>
               (case stash n orc st (Some a) others of
                  Returns st' \<Rightarrow> Returns (st', Some a)
                | Panics \<Rightarrow> Panics
                | OutOfFuel \<Rightarrow> OutOfFuel)
           | None \<Rightarrow>
               (case alloc st of
                  (st1, a) \<Rightarrow>
                    (case add n st1 (Some a) err of
                       Returns (st2, r) \<Rightarrow>
                         (case stash n orc st2 (Some a) others of
                            Returns st3 \<Rightarrow> Returns (st3, Some a)
                          | Panics \<Rightarrow> Panics
                          | OutOfFuel \<Rightarrow> OutOfFuel)
                     | Panics \<Rightarrow> Panics
                     | OutOfFuel \<Rightarrow> OutOfFuel))))"

definition Add :: "nat \<Rightarrow> callbacks \<Rightarrow> state \<Rightarrow> ptr \<Rightarrow> err option \<Rightarrow> item list \<Rightarrow> (state \<times> err option) outcome" where
  "Add n orc st eb err errors =
     (case err of
        None \<Rightarrow> Returns (st, ErrorOrNil st eb)
      | Some e \<Rightarrow>
          (case (case eb of None \<Rightarrow> alloc st | Some a \<Rightarrow> (st, a)) of
             (st1, a) \<Rightarrow>
               (case add n st1 (Some a) err of
                  Returns (st2, r) \<Rightarrow>
                    (case stash n orc st2 (Some a) errors of
                       Returns st3 \<Rightarrow> Returns (st3, ErrorOrNil st3 (Some a))
                     | Panics \<Rightarrow> Panics
                     | OutOfFuel \<Rightarrow> OutOfFuel)
                | Panics \<Rightarrow> Panics
                | OutOfFuel \<Rightarrow> OutOfFuel)))"

text \<open>\<^verbatim>\<open>fmt.Sprintf("%d", l)\<close> for a length.\<close>

fun itoa :: "nat \<Rightarrow> string" where
  "itoa n = (if n < 10 then [''0123456789'' ! n] else itoa (n div 10) @ [''0123456789'' ! (n mod 10)])"

declare itoa.simps [simp del]

text \<open>
  \<^verbatim>\<open>Error\<close> of a collector, and the \<^verbatim>\<open>Error()\<close> method of an arbitrary error value (for a
  type that embeds a collector the method is the promoted one). A collector whose only
  stored error is a collector recurses, hence the budget.
\<close>

fun Error :: "nat \<Rightarrow> state \<Rightarrow> ptr \<Rightarrow> string outcome" where
  "Error 0 st eb = OutOfFuel"
| "Error (Suc n) st eb =
     (case eb of
        None \<Rightarrow> Panics
      | Some a \<Rightarrow>
          (let l = length (errs (heap st a)) in
           if l = 1 then
             (case errs (heap st a) ! 0 of
                Leaf i s \<Rightarrow> Returns s
              | BagPtr p \<Rightarrow> Error n st p
              | Embedding d b \<Rightarrow> Error n st (Some b))
           else if l > 1 then Returns (''encountered '' @ itoa l @ '' errors'')
           else Returns ''''))"

definition err_Error :: "nat \<Rightarrow> state \<Rightarrow> err \<Rightarrow> string outcome" where
  "err_Error n st e =
     (case e of
        Leaf i s \<Rightarrow> Returns s
      | BagPtr p \<Rightarrow> Error n st p
      | Embedding d b \<Rightarrow> Error n st (Some b))"

text \<open>
  \<^verbatim>\<open>sort.Slice\<close> belongs to Go's standard library, not to this package, so \<^verbatim>\<open>Sorted\<close>
  takes it as a parameter. Its documented contract: it reorders the slice in place so
  that it is sorted with respect to \<open>less\<close>; it is not guaranteed to be stable.
  \<open>insertionSort\<close> is the routine the library runs on short slices (at most 12
  elements): each element in turn sinks to the left while it is less than its left
  neighbour. \<open>sink\<close> works on the reversed prefix.
\<close>

type_synonym sorter = "(err \<Rightarrow> err \<Rightarrow> bool) \<Rightarrow> err list \<Rightarrow> err list"

fun sink :: "('a \<Rightarrow> 'a \<Rightarrow> bool) \<Rightarrow> 'a \<Rightarrow> 'a list \<Rightarrow> 'a list" where
  "sink lt x [] = [x]"
| "sink lt x (y # ys) = (if lt x y then y # sink lt x ys else x # y # ys)"

definition insertionSort :: "('a \<Rightarrow> 'a \<Rightarrow> bool) \<Rightarrow> 'a list \<Rightarrow> 'a list" where
  "insertionSort lt xs = rev (foldl (\<lambda>rp x. sink lt x rp) [] xs)"

text \<open>The texts the \<open>less\<close> closure of \<^verbatim>\<open>Sorted\<close> reads; the first one that fails decides.\<close>

fun texts :: "nat \<Rightarrow> state \<Rightarrow> err list \<Rightarrow> string list outcome" where
  "texts n st [] = Returns []"
| "texts n st (e # es) =
     (case err_Error n st e of
        Returns s \<Rightarrow>
          (case texts n st es of
             Returns ss \<Rightarrow> Returns (s # ss)
           | Panics \<Rightarrow> Panics
           | OutOfFuel \<Rightarrow> OutOfFuel)
      | Panics \<Rightarrow> Panics
      | OutOfFuel \<Rightarrow> OutOfFuel)"

definition text_of :: "nat \<Rightarrow> state \<Rightarrow> err \<Rightarrow> string" where
  "text_of n st e = (case err_Error n st e of Returns s \<Rightarrow> s | Panics \<Rightarrow> [] | OutOfFuel \<Rightarrow> [])"

text \<open>
  \<^verbatim>\<open>Sorted\<close>: \<^verbatim>\<open>Errors()\<close> hands out the stored slice itself (a conversion, no copy), and
  \<^verbatim>\<open>sort.Slice\<close> permutes it in place, so the result is also the collector's new stored
  sequence. A slice shorter than two is never compared. Otherwise every element is
  compared at least once, so every text is read.
\<close>

definition Sorted :: "sorter \<Rightarrow> nat \<Rightarrow> state \<Rightarrow> ptr \<Rightarrow> (state \<times> err list) outcome" where
  "Sorted sort_Slice n st eb =
     (case eb of
        None \<Rightarrow> Panics
      | Some a \<Rightarrow>
          (let es = errs (heap st a) in
           if length es < 2 then Returns (st, es)
           else
             (case texts n st es of
                Returns ss \<Rightarrow>
                  (let ys = sort_Slice (\<lambda>x y. text_of n st x < text_of n st y) es
                   in Returns (st\<lparr>heap := (heap st)(a := (heap st a)\<lparr>errs := ys\<rparr>)\<rparr>, ys))
              | Panics \<Rightarrow> Panics
              | OutOfFuel \<Rightarrow> OutOfFuel)))"

definition Defer :: "state \<Rightarrow> ptr \<Rightarrow> ErrorFunc \<Rightarrow> state outcome" where
  "Defer st eb ef =
     (case eb of
        None \<Rightarrow> Panics
      | Some a \<Rightarrow> Returns (st\<lparr>heap := (heap st)(a := (heap st a)\<lparr>defers := defers (heap st a) @ [ef]\<rparr>)\<rparr>))"

text \<open>The body of the loop of \<^verbatim>\<open>Return\<close>: call \<open>df\<close>, append a non-nil result directly.\<close>

definition run_deferred :: "callbacks \<Rightarrow> addr \<Rightarrow> ErrorFunc \<Rightarrow> state \<Rightarrow> state outcome" where
  "run_deferred orc a df st =
     (case df of
        None \<Rightarrow> Panics
      | Some f \<Rightarrow>
          (let st' = st\<lparr>calls := calls st @ [f]\<rparr> in
           case orc f of
             None \<Rightarrow> Returns st'
           | Some e \<Rightarrow> Returns (append_err st' a e)))"

definition Return :: "nat \<Rightarrow> callbacks \<Rightarrow> state \<Rightarrow> ptr \<Rightarrow> item list \<Rightarrow> (state \<times> err option) outcome" where
  "Return n orc st eb errors =
     (case stash n orc st eb errors of
        Returns st1 \<Rightarrow>
          (case eb of
             None \<Rightarrow> Panics
           | Some a \<Rightarrow>
               (case range_loop (run_deferred orc a) (defers (heap st1 a)) st1 of
                  Returns st2 \<Rightarrow> Returns (st2, ErrorOrNil st2 eb)
                | Panics \<Rightarrow> Panics
                | OutOfFuel \<Rightarrow> OutOfFuel))
      | Panics \<Rightarrow> Panics
      | OutOfFuel \<Rightarrow> OutOfFuel)"

definition Visit :: "state \<Rightarrow> ptr \<Rightarrow> (err \<Rightarrow> state \<Rightarrow> state outcome) \<Rightarrow> state outcome" where
  "Visit st eb v = (case eb of None \<Rightarrow> Panics | Some a \<Rightarrow> range_loop v (errs (heap st a)) st)"

definition WithWrapper :: "state \<Rightarrow> ErrorWrapper option \<Rightarrow> state \<times> ptr" where
  "WithWrapper st w =
     (st\<lparr>heap := (heap st)(nxt st := \<lparr>errs = [], wrapper = w, defers = []\<rparr>), nxt := Suc (nxt st)\<rparr>,
      Some (nxt st))"

definition set_ErrorWrapper :: "state \<Rightarrow> ptr \<Rightarrow> ErrorWrapper option \<Rightarrow> state outcome" where
  "set_ErrorWrapper st eb w =
     (case eb of
        None \<Rightarrow> Panics
      | Some a \<Rightarrow> Returns (st\<lparr>heap := (heap st)(a := (heap st a)\<lparr>wrapper := w\<rparr>)\<rparr>))"

fun Wrap :: "nat \<Rightarrow> callbacks \<Rightarrow> state \<Rightarrow> ptr \<Rightarrow> err option \<Rightarrow> (state \<times> err option) outcome" where
  "Wrap 0 orc st eb err = OutOfFuel"
| "Wrap (Suc n) orc st eb err =
     (case err of
        None \<Rightarrow> Returns (st, Some (BagPtr eb))
      | Some e \<Rightarrow>
          (case eb of
             None \<Rightarrow> Panics
           | Some a \<Rightarrow>
               (case wrapper (heap st a) of
                  None \<Rightarrow> Add n orc st eb err []
                | Some w \<Rightarrow>
                    (case AsErrorBag err of
                       Some oeb \<Rightarrow>
                         if Some oeb \<noteq> eb then
                           (case Visit st (Some oeb) (\<lambda>x s. discard (Wrap n orc s eb (Some x))) of
                              Returns st' \<Rightarrow> Returns (st', Some (BagPtr eb))
                            | Panics \<Rightarrow> Panics
                            | OutOfFuel \<Rightarrow> OutOfFuel)
                         else Returns (st, Some (BagPtr eb))
                     | None \<Rightarrow> Add n orc st eb (w e) []))))"

section \<open>Reference descriptions used in the statements\<close>

text \<open>The state in which the stored errors of collector \<open>a\<close> are extended by \<open>xs\<close>.\<close>

definition append_errs :: "state \<Rightarrow> addr \<Rightarrow> err list \<Rightarrow> state" where
  "append_errs st a xs = st\<lparr>heap := (heap st)(a := (heap st a)\<lparr>errs := errs (heap st a) @ xs\<rparr>)\<rparr>"

text \<open>An empty store: every address holds the zero collector, nothing is allocated.\<close>

definition init_state :: state where
  "init_state = \<lparr>heap = (\<lambda>a. new_ErrorBag), nxt = 0, calls = []\<rparr>"

text \<open>
  The flattening of the specification (identity-aware insertion), written from its words
  for comparison with \<^verbatim>\<open>add\<close>/\<^verbatim>\<open>Merge\<close>: a value that is not a collector contributes
  itself; a collector with the receiver's identity contributes nothing; any other
  collector contributes the flattenings of its stored errors, in order. The budget
  counts nested calls exactly as \<^verbatim>\<open>add\<close> and \<^verbatim>\<open>Merge\<close> do; \<open>None\<close> means it did not
  suffice.
\<close>

fun flatten :: "nat \<Rightarrow> (addr \<Rightarrow> ErrorBag) \<Rightarrow> addr \<Rightarrow> err \<Rightarrow> err list option"
  and flatten_bag :: "nat \<Rightarrow> (addr \<Rightarrow> ErrorBag) \<Rightarrow> addr \<Rightarrow> addr \<Rightarrow> err list option" where
  "flatten 0 h a e = None"
| "flatten (Suc n) h a e =
     (case AsErrorBag (Some e) of
        None \<Rightarrow> Some [e]
      | Some b \<Rightarrow> flatten_bag n h a b)"
| "flatten_bag 0 h a b = None"
| "flatten_bag (Suc n) h a b =
     (if b = a then Some []
      else map_option concat (those (map (flatten n h a) (errs (h b)))))"


text \<open>What one extra contributes when it is folded, and which callback it invokes.\<close>

fun item_errs :: "callbacks \<Rightarrow> item \<Rightarrow> err list" where
  "item_errs orc INil = []"
| "item_errs orc (IErr v) = [v]"
| "item_errs orc (IFunc None) = []"
| "item_errs orc (IFunc (Some f)) = (case orc f of None \<Rightarrow> [] | Some e \<Rightarrow> [e])"
| "item_errs orc IOther = []"

fun item_calls :: "item \<Rightarrow> fid list" where
  "item_calls (IFunc (Some f)) = [f]"
| "item_calls i = []"

text \<open>
  The state after the callbacks \<open>fs\<close> ran in this order: each is logged once, and the
  non-nil results are appended to the stored errors of \<open>a\<close>.
\<close>

definition deferred_done :: "callbacks \<Rightarrow> state \<Rightarrow> addr \<Rightarrow> fid list \<Rightarrow> state" where
  "deferred_done orc st a fs =
     (append_errs st a (List.map_filter orc fs))\<lparr>calls := calls st @ fs\<rparr>"

text \<open>The number a string of decimal digits denotes.\<close>

definition decimal_value :: "string \<Rightarrow> nat" where
  "decimal_value s = foldl (\<lambda>v c. 10 * v + (of_char c - 48)) 0 s"

subsection \<open>Concrete inputs for the examples\<close>

definition no_callbacks :: callbacks where
  "no_callbacks = (\<lambda>f. None)"

definition two_errors :: state where
  "two_errors =
     append_errs (fst (alloc init_state)) 0 [Leaf 1 ''first error'', Leaf 2 ''second error'']"


text \<open>
  Callback 5 fails, every other callback succeeds; and a fresh collector at address 0
  after \<^verbatim>\<open>Defer(f5); Defer(f6)\<close>.
\<close>

definition f5_fails :: callbacks where
  "f5_fails = (\<lambda>f. if f = 5 then Some (Leaf 7 ''f1 failed'') else None)"

definition two_deferred :: state where
  "two_deferred =
     (case alloc init_state of
        (s0, a) \<Rightarrow>
          (case Defer s0 (Some a) (Some 5) of
             Returns s1 \<Rightarrow> (case Defer s1 (Some a) (Some 6) of Returns s2 \<Rightarrow> s2 | _ \<Rightarrow> s1)
           | _ \<Rightarrow> s0))"

text \<open>A fresh collector at address 0.\<close>

definition one_bag :: state where
  "one_bag = fst (alloc init_state)"

text \<open>More sample states: collector 0 with one, and with three, ordinary errors.\<close>

definition one_error :: state where
  "one_error = append_errs one_bag 0 [Leaf 21 ''x'']"

definition three_errors :: state where
  "three_errors = append_errs one_bag 0 [Leaf 21 ''x'', Leaf 22 ''y'', Leaf 23 ''z'']"

text \<open>Collector 0 with errors whose texts are b, a, c; and the same collector sorted.\<close>

definition b_then_a :: state where
  "b_then_a = append_errs one_bag 0 [Leaf 31 ''b'', Leaf 32 ''a'', Leaf 33 ''c'']"

definition a_then_b :: state where
  "a_then_b = append_errs one_bag 0 [Leaf 32 ''a'', Leaf 31 ''b'', Leaf 33 ''c'']"

text \<open>
  A wrapper that tags ordinary errors; and a store where collector 0 has this wrapper
  installed and collector 2 holds two ordinary errors.
\<close>

definition tag :: ErrorWrapper where
  "tag e = (case e of Leaf i s \<Rightarrow> Some (Leaf i (''tagged: '' @ s)) | BagPtr p \<Rightarrow> Some e | Embedding d a \<Rightarrow> Some e)"

definition wrap_store :: state where
  "wrap_store =
     append_errs (fst (alloc (fst (alloc (fst (WithWrapper init_state (Some tag))))))) 2
       [Leaf 10 ''b one'', Leaf 11 ''b two'']"







section \<open>Auxiliary facts\<close>

lemma append_errs_Nil [simp]: "append_errs st a [] = st"
  by (simp add: append_errs_def)

lemma append_errs_append [simp]: "append_errs (append_errs st a xs) a ys = append_errs st a (xs @ ys)"
  by (simp add: append_errs_def)

lemma append_err_eq: "append_err st a e = append_errs st a [e]"
  by (simp add: append_err_def append_errs_def)

lemma heap_append_errs:
  "heap (append_errs st a xs) = (heap st)(a := (heap st a)\<lparr>errs := errs (heap st a) @ xs\<rparr>)"
  by (simp add: append_errs_def)

lemma calls_append_errs [simp]: "calls (append_errs st a xs) = calls st"
  by (simp add: append_errs_def)

lemma nxt_append_errs [simp]: "nxt (append_errs st a xs) = nxt st"
  by (simp add: append_errs_def)

lemma errs_append_errs [simp]: "errs (heap (append_errs st a xs) a) = errs (heap st a) @ xs"
  by (simp add: append_errs_def)

lemma defers_append_errs [simp]: "defers (heap (append_errs st a xs) b) = defers (heap st b)"
  by (simp add: append_errs_def)

lemma wrapper_append_errs [simp]: "wrapper (heap (append_errs st a xs) b) = wrapper (heap st b)"
  by (simp add: append_errs_def)

lemma heap_append_errs_other [simp]: "b \<noteq> a \<Longrightarrow> heap (append_errs st a xs) b = heap st b"
  by (simp add: append_errs_def)

lemma flatten_upd_self:
  "flatten n (h(a := x)) a e = flatten n h a e"
  "flatten_bag n (h(a := x)) a b = flatten_bag n h a b"
proof (induction n h a e and n h a b rule: flatten_flatten_bag.induct)
  case (4 n h a b)
  then show ?case by (auto intro!: arg_cong[where f="\<lambda>xs. map_option concat (those xs)"])
qed (auto split: option.splits)

lemma flatten_append_errs [simp]:
  "flatten n (heap (append_errs st a xs)) a e = flatten n (heap st) a e"
  by (simp add: heap_append_errs flatten_upd_self)

lemma flatten_append_errs_fun [simp]:
  "flatten n (heap (append_errs st a xs)) a = flatten n (heap st) a"
  by (rule ext) simp

lemma range_loop_flatten:
  assumes body: "\<And>s e. body e s =
                 (case flatten n (heap s) a e of
                    None \<Rightarrow> OutOfFuel
                  | Some xs \<Rightarrow> Returns (append_errs s a xs))"
  shows "range_loop body es st =
           (case those (map (flatten n (heap st) a) es) of
              None \<Rightarrow> OutOfFuel
            | Some xss \<Rightarrow> Returns (append_errs st a (concat xss)))"
proof (induction es arbitrary: st)
  case Nil
  then show ?case by simp
next
  case (Cons e es)
  have b1: "body e st =
                 (case flatten n (heap st) a e of
                    None \<Rightarrow> OutOfFuel
                  | Some xs \<Rightarrow> Returns (append_errs st a xs))"
    by (rule body)
  show ?case
    by (cases "flatten n (heap st) a e") (simp_all add: b1 Cons.IH split: option.splits)
qed

lemma add_Merge_flatten:
  "add n st (Some a) (Some e) =
     (case flatten n (heap st) a e of
        None \<Rightarrow> OutOfFuel
      | Some xs \<Rightarrow> Returns (append_errs st a xs, Some (BagPtr (Some a))))"
  "Merge n st (Some a) (Some b) =
     (case flatten_bag n (heap st) a b of
        None \<Rightarrow> OutOfFuel
      | Some xs \<Rightarrow> Returns (append_errs st a xs, Some (BagPtr (Some a))))"
proof (induction n arbitrary: st e b)
  case 0
  { case 1 show ?case by simp }
  { case 2 show ?case by simp }
next
  case (Suc n)
  { case 1 show ?case
      by (simp add: Suc(2) append_err_eq split: option.splits) }
  { case 2
    have body: "\<And>s e. discard (add n s (Some a) (Some e)) =
                 (case flatten n (heap s) a e of
                    None \<Rightarrow> OutOfFuel
                  | Some xs \<Rightarrow> Returns (append_errs s a xs))"
      by (simp add: Suc(1) split: option.splits)
    show ?case
      by (auto simp: range_loop_flatten[where body="\<lambda>e s. discard (add n s (Some a) (Some e))", OF body]
               split: option.splits) }
qed


lemma those_map_Some:
  "those (map f es) = Some xss \<Longrightarrow> list_all2 (\<lambda>e ys. f e = Some ys) es xss"
  by (induction es arbitrary: xss) (auto split: option.splits)

lemma those_map_member:
  assumes "those (map f es) = Some xss" and "ys \<in> set xss"
  shows "\<exists>e\<in>set es. f e = Some ys"
proof -
  from assms(2) obtain i where i: "i < length xss" "xss ! i = ys"
    by (auto simp: in_set_conv_nth)
  from those_map_Some[OF assms(1)] i
  have "f (es ! i) = Some ys" "i < length es"
    by (auto dest: list_all2_nthD2 list_all2_lengthD)
  then show ?thesis by (auto intro: bexI[where x="es ! i"])
qed

lemma flatten_noncollector:
  "flatten n h a e = Some xs \<Longrightarrow> \<forall>x\<in>set xs. AsErrorBag (Some x) = None"
  "flatten_bag n h a b = Some xs \<Longrightarrow> \<forall>x\<in>set xs. AsErrorBag (Some x) = None"
proof (induction n h a e and n h a b arbitrary: xs and xs rule: flatten_flatten_bag.induct)
  case (4 n h a b)
  show ?case
  proof (cases "b = a")
    case True
    with 4(2) show ?thesis by simp
  next
    case False
    with 4(2) obtain xss where xss: "those (map (flatten n h a) (errs (h b))) = Some xss"
      and xs: "xs = concat xss" by auto
    have "\<forall>ys\<in>set xss. \<forall>x\<in>set ys. AsErrorBag (Some x) = None"
      using those_map_member[OF xss] 4(1)[OF False] by blast
    then show ?thesis using xs by auto
  qed
qed (auto split: option.splits)








lemma stash_Nil [simp]: "stash n orc st eb [] = Returns st"
  by (simp add: stash_def)

lemma stash_Cons:
  "stash n orc st eb (i # items) =
     (case (case i of
              INil \<Rightarrow> Returns st
            | IErr v \<Rightarrow> discard (add n st eb (Some v))
            | IFunc v \<Rightarrow>
                (case v of
                   None \<Rightarrow> Returns st
                 | Some f \<Rightarrow> discard (add n (st\<lparr>calls := calls st @ [f]\<rparr>) eb (orc f)))
            | IOther \<Rightarrow> Panics) of
        Returns st' \<Rightarrow> stash n orc st' eb items
      | Panics \<Rightarrow> Panics
      | OutOfFuel \<Rightarrow> OutOfFuel)"
  unfolding stash_def by simp

lemma append_errs_calls [simp]:
  "append_errs (st\<lparr>calls := c\<rparr>) a xs = (append_errs st a xs)\<lparr>calls := c\<rparr>"
  by (simp add: append_errs_def)

lemma heap_calls_append_errs [simp]:
  "heap ((append_errs st a xs)\<lparr>calls := c\<rparr>) = heap (append_errs st a xs)"
  by simp

lemma calls_update_twice [simp]:
  "(st\<lparr>calls := c\<rparr>)\<lparr>calls := d\<rparr> = st\<lparr>calls := d\<rparr>"
  by simp

lemma append_errs_calls_append [simp]:
  "append_errs ((append_errs st a xs)\<lparr>calls := c\<rparr>) a ys = (append_errs st a (xs @ ys))\<lparr>calls := c\<rparr>"
  by (simp add: append_errs_def)

lemma stash_effect:
  "IOther \<notin> set items \<Longrightarrow>
   stash (Suc n) orc st (Some a) items =
     (case those (map (flatten (Suc n) (heap st) a) (concat (map (item_errs orc) items))) of
        None \<Rightarrow> OutOfFuel
      | Some xss \<Rightarrow>
          Returns ((append_errs st a (concat xss))\<lparr>calls := calls st @ concat (map item_calls items)\<rparr>))"
proof (induction items arbitrary: st)
  case Nil
  then show ?case by simp
next
  case (Cons i items)
  then have IH: "\<And>st. stash (Suc n) orc st (Some a) items =
     (case those (map (flatten (Suc n) (heap st) a) (concat (map (item_errs orc) items))) of
        None \<Rightarrow> OutOfFuel
      | Some xss \<Rightarrow>
          Returns ((append_errs st a (concat xss))\<lparr>calls := calls st @ concat (map item_calls items)\<rparr>))"
    by (simp del: flatten.simps)
  from Cons.prems have i: "i \<noteq> IOther" by auto
  show ?case
  proof (cases i)
    case INil
    then show ?thesis by (simp add: stash_Cons IH del: flatten.simps split: option.splits)
  next
    case (IErr v)
    then show ?thesis
      by (simp add: stash_Cons IH add_Merge_flatten(1)
               del: add.simps flatten.simps split: option.splits)
  next
    case (IFunc v)
    show ?thesis
    proof (cases v)
      case None
      with IFunc show ?thesis by (simp add: stash_Cons IH del: flatten.simps split: option.splits)
    next
      case (Some f)
      show ?thesis
      proof (cases "orc f")
        case None
        with IFunc Some show ?thesis
          by (simp add: stash_Cons IH del: flatten.simps split: option.splits)
      next
        case (Some e)
        with IFunc \<open>v = Some f\<close> show ?thesis
          by (simp add: stash_Cons IH add_Merge_flatten(1)
                   del: add.simps flatten.simps split: option.splits)
      qed
    qed
  next
    case IOther
    with i show ?thesis by simp
  qed
qed


lemma add_appends:
  assumes "add m st (Some a) err = Returns (st', r)"
  shows "\<exists>xs. st' = append_errs st a xs \<and> (\<forall>x\<in>set xs. AsErrorBag (Some x) = None)"
proof (cases err)
  case None
  with assms have "st' = append_errs st a []" by (cases m) auto
  then show ?thesis by (intro exI[where x="[]"]) simp
next
  case (Some e)
  with assms obtain xs where "flatten m (heap st) a e = Some xs" "st' = append_errs st a xs"
    by (auto simp: add_Merge_flatten(1) split: option.splits)
  then show ?thesis using flatten_noncollector(1) by blast
qed

lemma two_errors_errs:
  "errs (heap two_errors 0) = [Leaf 1 ''first error'', Leaf 2 ''second error'']"
  by (simp add: two_errors_def alloc_def init_state_def new_ErrorBag_def)











lemma append_errs_calls_same [simp]:
  "(append_errs st a xs)\<lparr>calls := calls st\<rparr> = append_errs st a xs"
  by (simp add: append_errs_def)

lemma range_loop_preserves:
  assumes "\<And>x s s'. body x s = Returns s' \<Longrightarrow> P s \<Longrightarrow> P s'"
  shows "range_loop body xs st = Returns st' \<Longrightarrow> P st \<Longrightarrow> P st'"
proof (induction xs arbitrary: st)
  case Nil
  then show ?case by simp
next
  case (Cons x xs)
  then show ?case using assms by (auto split: outcome.splits)
qed

lemma range_loop_deferred:
  "range_loop (run_deferred orc a) (map Some fs) st =
     Returns ((append_errs st a (List.map_filter orc fs))\<lparr>calls := calls st @ fs\<rparr>)"
proof (induction fs arbitrary: st)
  case Nil
  then show ?case by (simp add: List.map_filter_simps)
next
  case (Cons f fs)
  then show ?case
    by (cases "orc f") (simp_all add: run_deferred_def List.map_filter_simps append_err_eq)
qed

lemma stash_frame:
  "stash n orc st (Some a) items = Returns st1 \<Longrightarrow>
   \<exists>xs cs. st1 = (append_errs st a xs)\<lparr>calls := calls st @ cs\<rparr>"
proof (induction items arbitrary: st)
  case Nil
  then have "st1 = (append_errs st a [])\<lparr>calls := calls st @ []\<rparr>" by simp
  then show ?case by blast
next
  case (Cons i items)
  from Cons.prems obtain s where s: "stash n orc s (Some a) items = Returns st1"
    and i: "(case i of
              INil \<Rightarrow> Returns st
            | IErr v \<Rightarrow> discard (add n st (Some a) (Some v))
            | IFunc v \<Rightarrow>
                (case v of
                   None \<Rightarrow> Returns st
                 | Some f \<Rightarrow> discard (add n (st\<lparr>calls := calls st @ [f]\<rparr>) (Some a) (orc f)))
            | IOther \<Rightarrow> Panics) = Returns s"
    by (auto simp: stash_Cons split: outcome.splits)
  have "\<exists>xs cs. s = (append_errs st a xs)\<lparr>calls := calls st @ cs\<rparr>"
  proof (cases i)
    case INil
    with i have "s = (append_errs st a [])\<lparr>calls := calls st @ []\<rparr>" by simp
    then show ?thesis by blast
  next
    case (IErr v)
    with i obtain r where "add n st (Some a) (Some v) = Returns (s, r)"
      by (cases "add n st (Some a) (Some v)") auto
    from add_appends[OF this] obtain xs where "s = (append_errs st a xs)\<lparr>calls := calls st @ []\<rparr>"
      by auto
    then show ?thesis by blast
  next
    case (IFunc v)
    show ?thesis
    proof (cases v)
      case None
      with IFunc i have "s = (append_errs st a [])\<lparr>calls := calls st @ []\<rparr>" by simp
      then show ?thesis by blast
    next
      case (Some f)
      with IFunc i obtain r where "add n (st\<lparr>calls := calls st @ [f]\<rparr>) (Some a) (orc f) = Returns (s, r)"
        by (cases "add n (st\<lparr>calls := calls st @ [f]\<rparr>) (Some a) (orc f)") auto
      from add_appends[OF this] obtain xs where "s = (append_errs st a xs)\<lparr>calls := calls st @ [f]\<rparr>"
        by auto
      then show ?thesis by blast
    qed
  next
    case IOther
    with i show ?thesis by simp
  qed
  then obtain xs cs where s': "s = (append_errs st a xs)\<lparr>calls := calls st @ cs\<rparr>" by blast
  from Cons.IH[OF s] obtain ys ds where "st1 = (append_errs s a ys)\<lparr>calls := calls s @ ds\<rparr>" by blast
  with s' have "st1 = (append_errs st a (xs @ ys))\<lparr>calls := calls st @ (cs @ ds)\<rparr>" by simp
  then show ?case by blast
qed

lemma stash_defers:
  "stash n orc st (Some a) items = Returns st1 \<Longrightarrow> defers (heap st1 b) = defers (heap st b)"
  by (drule stash_frame) auto

lemma Return_effect:
  assumes "stash n orc st (Some a) items = Returns st1" and "defers (heap st a) = map Some fs"
  shows "Return n orc st (Some a) items =
           Returns ((append_errs st1 a (List.map_filter orc fs))\<lparr>calls := calls st1 @ fs\<rparr>,
                    ErrorOrNil ((append_errs st1 a (List.map_filter orc fs))\<lparr>calls := calls st1 @ fs\<rparr>) (Some a))"
  using assms stash_defers[OF assms(1), of a]
  by (simp add: Return_def range_loop_deferred)


lemma Return_defers:
  assumes "Return m orc s (Some a) items = Returns (s', r)"
  shows "defers (heap s' b) = defers (heap s b)"
proof -
  from assms obtain s1 where s1: "stash m orc s (Some a) items = Returns s1"
    and l: "range_loop (run_deferred orc a) (defers (heap s1 a)) s1 = Returns s'"
    by (auto simp: Return_def split: outcome.splits)
  have "\<And>x t t'. run_deferred orc a x t = Returns t' \<Longrightarrow>
          defers (heap t b) = defers (heap s1 b) \<Longrightarrow> defers (heap t' b) = defers (heap s1 b)"
    by (auto simp: run_deferred_def Let_def append_err_def split: option.splits if_splits)
  from range_loop_preserves[where P="\<lambda>t. defers (heap t b) = defers (heap s1 b)", OF this l]
  have "defers (heap s' b) = defers (heap s1 b)" by simp
  with stash_defers[OF s1] show ?thesis by simp
qed

lemma two_deferred_eval:
  "defers (heap two_deferred 0) = map Some [5, 6]"
  "errs (heap two_deferred 0) = []"
  "calls two_deferred = []"
  by (simp_all add: two_deferred_def alloc_def init_state_def new_ErrorBag_def Defer_def)

lemma one_bag_eval:
  "errs (heap one_bag 0) = []" "calls one_bag = []"
  by (simp_all add: one_bag_def alloc_def init_state_def new_ErrorBag_def)

lemma Add_effect:
  assumes "IOther \<notin> set extras"
  shows "Add (Suc n) orc st (Some a) (Some e) extras =
     (case those (map (flatten (Suc n) (heap st) a) (e # concat (map (item_errs orc) extras))) of
        None \<Rightarrow> OutOfFuel
      | Some xss \<Rightarrow>
          Returns ((append_errs st a (concat xss))\<lparr>calls := calls st @ concat (map item_calls extras)\<rparr>,
                   ErrorOrNil ((append_errs st a (concat xss))\<lparr>calls := calls st @ concat (map item_calls extras)\<rparr>)
                     (Some a)))"
proof (cases "flatten (Suc n) (heap st) a e")
  case None
  then show ?thesis
    by (simp add: Add_def add_Merge_flatten(1) del: add.simps flatten.simps)
next
  case (Some xs)
  then show ?thesis
    by (simp add: Add_def add_Merge_flatten(1) stash_effect[OF assms]
             del: add.simps flatten.simps split: option.splits)
qed

lemma Add_result:
  assumes "Add n orc st (Some a) err extras = Returns (st', r)"
  shows "r = ErrorOrNil st' (Some a)"
  using assms by (auto simp: Add_def split: option.splits outcome.splits prod.splits)

lemma digit_char: "d < 10 \<Longrightarrow> of_char (''0123456789'' ! d) = (48 + d :: nat)"
proof -
  assume "d < 10"
  then have "d \<in> {0, 1, 2, 3, 4, 5, 6, 7, 8, 9}" by auto
  then show ?thesis by (elim insertE emptyE) simp_all
qed

lemma decimal_value_snoc: "decimal_value (s @ [c]) = 10 * decimal_value s + (of_char c - 48)"
  by (simp add: decimal_value_def)

lemma decimal_value_itoa: "decimal_value (itoa n) = n"
proof (induction n rule: itoa.induct)
  case (1 n)
  show ?case
  proof (cases "n < 10")
    case True
    then show ?thesis
      by (subst itoa.simps) (simp add: decimal_value_def digit_char)
  next
    case False
    then have "decimal_value (itoa n) = 10 * decimal_value (itoa (n div 10)) + (of_char (''0123456789'' ! (n mod 10)) - 48)"
      by (subst itoa.simps) (simp add: decimal_value_snoc)
    also have "\<dots> = 10 * (n div 10) + n mod 10"
      using 1[OF False] digit_char[of "n mod 10"] by simp
    finally show ?thesis by simp
  qed
qed

lemma sample_errs:
  "errs (heap one_error 0) = [Leaf 21 ''x'']"
  "errs (heap three_errors 0) = [Leaf 21 ''x'', Leaf 22 ''y'', Leaf 23 ''z'']"
  by (simp_all add: one_error_def three_errors_def one_bag_eval)

lemma set_sink: "set (sink lt x rp) = insert x (set rp)"
  by (induction rp) auto

lemma mset_sink: "mset (sink lt x rp) = add_mset x (mset rp)"
  by (induction rp) auto

lemma sorted_sink:
  fixes key :: "'a \<Rightarrow> 'k::linorder"
  shows "sorted (rev (map key rp)) \<Longrightarrow> sorted (rev (map key (sink (\<lambda>x y. key x < key y) x rp)))"
proof (induction rp)
  case Nil
  then show ?case by simp
next
  case (Cons y ys)
  show ?case
  proof (cases "key x < key y")
    case True
    with Cons show ?thesis
      by (auto simp: sorted_append set_sink)
  next
    case False
    with Cons.prems show ?thesis
      by (auto simp: sorted_append)
  qed
qed

lemma foldl_sink:
  fixes key :: "'a \<Rightarrow> 'k::linorder"
  shows "sorted (rev (map key rp)) \<Longrightarrow>
         sorted (rev (map key (foldl (\<lambda>rp x. sink (\<lambda>x y. key x < key y) x rp) rp xs)))
         \<and> mset (foldl (\<lambda>rp x. sink (\<lambda>x y. key x < key y) x rp) rp xs) = mset rp + mset xs"
proof (induction xs arbitrary: rp)
  case Nil
  then show ?case by simp
next
  case (Cons x xs)
  from Cons.IH[OF sorted_sink[OF Cons.prems, of x]] show ?case
    by (simp add: mset_sink)
qed

lemma insertionSort_contract:
  fixes key :: "'a \<Rightarrow> 'k::linorder"
  shows "mset (insertionSort (\<lambda>x y. key x < key y) xs) = mset xs
         \<and> sorted (map key (insertionSort (\<lambda>x y. key x < key y) xs))"
  using foldl_sink[of key "[]" xs] by (simp add: insertionSort_def rev_map)

lemma texts_Returns:
  "\<forall>e\<in>set es. \<exists>s. err_Error n st e = Returns s \<Longrightarrow> \<exists>ss. texts n st es = Returns ss"
  by (induction es) auto

lemma Wrap_plain:
  assumes "wrapper (heap s a) = Some w" and "AsErrorBag (Some x) = None"
    and "\<forall>y. w x = Some y \<longrightarrow> AsErrorBag (Some y) = None"
  shows "discard (Wrap (Suc (Suc n)) orc s (Some a) (Some x)) =
           Returns (append_errs s a (case w x of None \<Rightarrow> [] | Some y \<Rightarrow> [y]))"
proof (cases "w x")
  case None
  with assms show ?thesis by (simp add: Add_def)
next
  case (Some y)
  with assms have "AsErrorBag (Some y) = None" by simp
  with assms Some show ?thesis by (simp add: Add_def append_err_eq)
qed

lemma Wrap_loop_plain:
  assumes "wrapper (heap s a) = Some w"
    and "\<forall>x\<in>set xs. AsErrorBag (Some x) = None \<and> (\<forall>y. w x = Some y \<longrightarrow> AsErrorBag (Some y) = None)"
  shows "range_loop (\<lambda>x s. discard (Wrap (Suc (Suc n)) orc s (Some a) (Some x))) xs s =
           Returns (append_errs s a (List.map_filter w xs))"
  using assms
proof (induction xs arbitrary: s)
  case Nil
  then show ?case by (simp add: List.map_filter_simps)
next
  case (Cons x xs)
  have 1: "discard (Wrap (Suc (Suc n)) orc s (Some a) (Some x)) =
           Returns (append_errs s a (case w x of None \<Rightarrow> [] | Some y \<Rightarrow> [y]))"
    using Cons.prems by (intro Wrap_plain) auto
  have 2: "wrapper (heap (append_errs s a (case w x of None \<Rightarrow> [] | Some y \<Rightarrow> [y])) a) = Some w"
    using Cons.prems(1) by simp
  have 3: "range_loop (\<lambda>x s. discard (Wrap (Suc (Suc n)) orc s (Some a) (Some x))) xs
             (append_errs s a (case w x of None \<Rightarrow> [] | Some y \<Rightarrow> [y]))
           = Returns (append_errs (append_errs s a (case w x of None \<Rightarrow> [] | Some y \<Rightarrow> [y])) a (List.map_filter w xs))"
    using Cons.prems(2) by (intro Cons.IH[OF 2]) simp
  show ?case
    unfolding range_loop.simps 1 using 3
    by (simp add: List.map_filter_simps split: option.splits del: Wrap.simps)
qed

lemma wrap_store_eval:
  "wrapper (heap wrap_store 0) = Some tag"
  "errs (heap wrap_store 0) = []"
  "errs (heap wrap_store 2) = [Leaf 10 ''b one'', Leaf 11 ''b two'']"
  by (simp_all add: wrap_store_def WithWrapper_def alloc_def init_state_def new_ErrorBag_def append_errs_def)




lemma flatten_bag_append_errs [simp]:
  "flatten_bag n (heap (append_errs st a xs)) a b = flatten_bag n (heap st) a b"
  by (simp add: heap_append_errs flatten_upd_self)





section \<open>The claims\<close>

subsection \<open>C1: inserting a collector into itself\<close>

text \<open>
  C1. Adding or merging a collector into itself is a no-op. Whenever the inserted value
  reduces (through \<^verbatim>\<open>AsErrorBag\<close>) to the receiver \<open>a\<close>, which is the case for the pointer
  itself and for a value of a type that embeds the collector at any depth \<open>d\<close>, the
  internal \<^verbatim>\<open>add\<close>, \<^verbatim>\<open>Merge\<close> and the public \<^verbatim>\<open>Add\<close> return with the whole state
  unchanged, so the size is unchanged and nothing was stored. Moreover no call of
  \<^verbatim>\<open>add\<close>, with whatever argument, ever appends a value that reduces to the receiver.
\<close>

theorem C1_self_insertion_noop:
  assumes "AsErrorBag (Some e) = Some a"
  shows "add (Suc (Suc n)) st (Some a) (Some e) = Returns (st, Some (BagPtr (Some a)))
       \<and> Merge (Suc n) st (Some a) (Some a) = Returns (st, Some (BagPtr (Some a)))
       \<and> Add (Suc (Suc n)) orc st (Some a) (Some e) [] = Returns (st, ErrorOrNil st (Some a))
       \<and> Size st (Some a) = Returns (length (errs (heap st a)))
       \<and> AsErrorBag (Some (BagPtr (Some a))) = Some a
       \<and> AsErrorBag (Some (Embedding d a)) = Some a
       \<and> (add m st (Some a) err = Returns (st', r) \<longrightarrow>
            (\<exists>xs. errs (heap st' a) = errs (heap st a) @ xs \<and>
                  (\<forall>x\<in>set xs. AsErrorBag (Some x) \<noteq> Some a)))"
proof -
  have "add m st (Some a) err = Returns (st', r) \<Longrightarrow>
          \<exists>xs. errs (heap st' a) = errs (heap st a) @ xs \<and> (\<forall>x\<in>set xs. AsErrorBag (Some x) \<noteq> Some a)"
    using add_appends[of m st a err st' r] by fastforce
  then show ?thesis using assms
    by (simp add: Add_def Size_def AsErrorBag_def)
qed

text \<open>
  The situation of the package's test: the collector at address 0 holds two errors and is
  added to itself through a value that embeds it two levels deep.
\<close>

theorem C1_self_insertion_noop_witness:
  "AsErrorBag (Some (Embedding 2 0)) = Some 0
   \<and> add (Suc (Suc 0)) two_errors (Some 0) (Some (Embedding 2 0)) = Returns (two_errors, Some (BagPtr (Some 0)))
   \<and> Merge (Suc 0) two_errors (Some 0) (Some 0) = Returns (two_errors, Some (BagPtr (Some 0)))
   \<and> Add (Suc (Suc 0)) no_callbacks two_errors (Some 0) (Some (Embedding 2 0)) [] =
       Returns (two_errors, Some (BagPtr (Some 0)))
   \<and> Size two_errors (Some 0) = Returns 2"
proof -
  have h: "AsErrorBag (Some (Embedding 2 0)) = Some 0" by (simp add: AsErrorBag_def)
  have s: "length (errs (heap two_errors 0)) = 2"
    by (simp add: two_errors_errs)
  have e: "ErrorOrNil two_errors (Some 0) = Some (BagPtr (Some 0))"
    by (simp add: ErrorOrNil_def s)
  show ?thesis
    using C1_self_insertion_noop[OF h, of 0 two_errors no_callbacks 2 0 None two_errors None] h s e
    by simp
qed

subsection \<open>C2: Add flattens collectors\<close>





subsection \<open>C3: Return runs the deferred callbacks\<close>

text \<open>
  C3. Let the callbacks \<open>fs\<close> be registered on the collector \<open>a\<close>, in this order, and let
  the fold of the extras (\<^verbatim>\<open>stash\<close>) end in state \<open>st1\<close>. Then \<^verbatim>\<open>Return(extras...)\<close>
  returns; after the fold it has invoked exactly the callbacks \<open>fs\<close>, each once, in
  registration order (the call log grows by \<open>fs\<close>), whatever the earlier ones returned;
  the non-nil results are appended in that order to the stored errors; and the value
  returned is \<^verbatim>\<open>ErrorOrNil()\<close> of the final state. The extras are folded by the same
  \<^verbatim>\<open>stash\<close> that \<^verbatim>\<open>Add\<close> runs after inserting its first argument. \<^verbatim>\<open>Defer\<close> only
  appends to the pending list: it invokes nothing.
\<close>

theorem C3_Return_runs_deferred:
  assumes "stash n orc st (Some a) extras = Returns st1"
    and "defers (heap st a) = map Some fs"
  shows "Return n orc st (Some a) extras
           = Returns (deferred_done orc st1 a fs, ErrorOrNil (deferred_done orc st1 a fs) (Some a))
       \<and> calls (deferred_done orc st1 a fs) = calls st1 @ fs
       \<and> errs (heap (deferred_done orc st1 a fs) a) = errs (heap st1 a) @ List.map_filter orc fs
       \<and> List.map_filter orc fs = map (the \<circ> orc) (filter (\<lambda>f. orc f \<noteq> None) fs)
       \<and> (add n st0 (Some a) (Some e) = Returns (st, r) \<longrightarrow>
            Add n orc st0 (Some a) (Some e) extras = Returns (st1, ErrorOrNil st1 (Some a)))
       \<and> Defer st (Some a) ef
           = Returns (st\<lparr>heap := (heap st)(a := (heap st a)\<lparr>defers := defers (heap st a) @ [ef]\<rparr>)\<rparr>)"
  using Return_effect[OF assms] assms(1)
  by (simp add: deferred_done_def Add_def Defer_def List.map_filter_def)

text \<open>
  The example of the specification: \<^verbatim>\<open>Defer(f5); Defer(f6); Return()\<close> where \<open>f5\<close> fails
  and \<open>f6\<close> succeeds. Both are invoked, and the collector ends up holding exactly the
  failure of \<open>f5\<close>. The last line is an \<^verbatim>\<open>Add\<close> whose extras are folded by the same fold.
\<close>

theorem C3_Return_runs_deferred_witness:
  "Return 0 f5_fails two_deferred (Some 0) []
     = Returns (deferred_done f5_fails two_deferred 0 [5, 6], Some (BagPtr (Some 0)))
   \<and> calls (deferred_done f5_fails two_deferred 0 [5, 6]) = [5, 6]
   \<and> errs (heap (deferred_done f5_fails two_deferred 0 [5, 6]) 0) = [Leaf 7 ''f1 failed'']
   \<and> Add (Suc 0) f5_fails two_deferred (Some 0) (Some (Leaf 8 ''main'')) [IFunc (Some 5)]
     = Returns ((append_errs two_deferred 0 [Leaf 8 ''main'', Leaf 7 ''f1 failed''])\<lparr>calls := [5]\<rparr>,
                Some (BagPtr (Some 0)))"
proof -
  have 1: "stash 0 f5_fails two_deferred (Some 0) [] = Returns two_deferred" by simp
  have 2: "defers (heap two_deferred 0) = map Some [5, 6]" by (rule two_deferred_eval)
  have 3: "List.map_filter f5_fails [5, 6] = [Leaf 7 ''f1 failed'']"
    by (simp add: List.map_filter_simps f5_fails_def)
  have 4: "ErrorOrNil (deferred_done f5_fails two_deferred 0 [5, 6]) (Some 0) = Some (BagPtr (Some 0))"
    by (simp add: ErrorOrNil_def deferred_done_def f5_fails_def two_deferred_eval)
  have a: "Return 0 f5_fails two_deferred (Some 0) []
     = Returns (deferred_done f5_fails two_deferred 0 [5, 6], Some (BagPtr (Some 0)))
   \<and> calls (deferred_done f5_fails two_deferred 0 [5, 6]) = [5, 6]
   \<and> errs (heap (deferred_done f5_fails two_deferred 0 [5, 6]) 0) = [Leaf 7 ''f1 failed'']"
    using C3_Return_runs_deferred[OF 1 2] 3 4
    by (simp add: two_deferred_eval)
  have 5: "stash (Suc 0) f5_fails (append_errs two_deferred 0 [Leaf 8 ''main'']) (Some 0) [IFunc (Some 5)]
             = Returns ((append_errs two_deferred 0 [Leaf 8 ''main'', Leaf 7 ''f1 failed''])\<lparr>calls := [5]\<rparr>)"
    by (simp add: stash_def f5_fails_def AsErrorBag_def append_err_eq two_deferred_eval)
  have 6: "defers (heap (append_errs two_deferred 0 [Leaf 8 ''main'']) 0) = map Some [5, 6]"
    by (simp add: two_deferred_eval)
  have 7: "add (Suc 0) two_deferred (Some 0) (Some (Leaf 8 ''main''))
             = Returns (append_errs two_deferred 0 [Leaf 8 ''main''], Some (BagPtr (Some 0)))"
    by (simp add: AsErrorBag_def append_err_eq)
  have 8: "ErrorOrNil ((append_errs two_deferred 0 [Leaf 8 ''main'', Leaf 7 ''f1 failed''])\<lparr>calls := [5]\<rparr>)
             (Some 0) = Some (BagPtr (Some 0))"
    by (simp add: ErrorOrNil_def)
  have b: "Add (Suc 0) f5_fails two_deferred (Some 0) (Some (Leaf 8 ''main'')) [IFunc (Some 5)]
     = Returns ((append_errs two_deferred 0 [Leaf 8 ''main'', Leaf 7 ''f1 failed''])\<lparr>calls := [5]\<rparr>,
                Some (BagPtr (Some 0)))"
    using C3_Return_runs_deferred[OF 5 6, of two_deferred "Leaf 8 ''main''" "Some (BagPtr (Some 0))"] 7 8
    by simp
  from a b show ?thesis by simp
qed

subsection \<open>C4: Sorted\<close>

text \<open>
  C4 as stated does not hold. \<^verbatim>\<open>Sorted\<close> sorts the slice that \<^verbatim>\<open>Errors()\<close> hands out,
  which is the collector's own: for a collector holding errors with the texts b, a, c (in
  this order), the call returns them in the order a, b, c, and afterwards the
  collector's stored sequence is a, b, c as well, not the insertion order b, a, c.
\<close>

theorem C4_counterexample:
  "Sorted insertionSort (Suc 0) b_then_a (Some 0)
     = Returns (a_then_b, [Leaf 32 ''a'', Leaf 31 ''b'', Leaf 33 ''c''])
   \<and> errs (heap b_then_a 0) = [Leaf 31 ''b'', Leaf 32 ''a'', Leaf 33 ''c'']
   \<and> errs (heap a_then_b 0) = [Leaf 32 ''a'', Leaf 31 ''b'', Leaf 33 ''c'']
   \<and> errs (heap a_then_b 0) \<noteq> errs (heap b_then_a 0)"
  by (simp add: Sorted_def Let_def b_then_a_def a_then_b_def one_bag_eval insertionSort_def
                text_of_def err_Error_def append_errs_def)

text \<open>
  C4, amended. For every sorting routine that meets the contract of \<^verbatim>\<open>sort.Slice\<close> (the
  result is a permutation of the slice, ordered by the comparison), and every collector
  whose stored errors all have a text: \<^verbatim>\<open>Sorted()\<close> returns a sequence \<open>ys\<close> that is a
  permutation of the stored errors and is ordered by the lexical order of their texts;
  the collector's stored sequence is \<open>ys\<close> afterwards, and nothing else changes. Nothing is
  said about the order of errors with equal texts.
\<close>

theorem C4_Sorted_in_place:
  fixes sort_Slice :: sorter
  assumes "\<And>(key :: err \<Rightarrow> string) xs.
             mset (sort_Slice (\<lambda>x y. key x < key y) xs) = mset xs
             \<and> sorted (map key (sort_Slice (\<lambda>x y. key x < key y) xs))"
    and "\<forall>e\<in>set (errs (heap st a)). \<exists>s. err_Error n st e = Returns s"
  shows "\<exists>ys. Sorted sort_Slice n st (Some a)
                = Returns (st\<lparr>heap := (heap st)(a := (heap st a)\<lparr>errs := ys\<rparr>)\<rparr>, ys)
              \<and> mset ys = mset (errs (heap st a))
              \<and> sorted (map (text_of n st) ys)"
proof (cases "length (errs (heap st a)) < 2")
  case True
  then have s: "sorted (map (text_of n st) (errs (heap st a)))"
    by (cases "errs (heap st a)") (auto simp: less_Suc_eq_0_disj)
  have "Sorted sort_Slice n st (Some a)
          = Returns (st\<lparr>heap := (heap st)(a := (heap st a)\<lparr>errs := errs (heap st a)\<rparr>)\<rparr>, errs (heap st a))"
    using True by (simp add: Sorted_def)
  with s show ?thesis by blast
next
  case False
  from texts_Returns[OF assms(2)] obtain ss where "texts n st (errs (heap st a)) = Returns ss" ..
  with False have "Sorted sort_Slice n st (Some a)
     = Returns (st\<lparr>heap := (heap st)(a := (heap st a)\<lparr>errs :=
                   sort_Slice (\<lambda>x y. text_of n st x < text_of n st y) (errs (heap st a))\<rparr>)\<rparr>,
                sort_Slice (\<lambda>x y. text_of n st x < text_of n st y) (errs (heap st a)))"
    by (simp add: Sorted_def Let_def)
  with assms(1)[of "text_of n st" "errs (heap st a)"] show ?thesis by blast
qed


text \<open>With the library's insertion sort, on the collector of the counterexample.\<close>

theorem C4_Sorted_in_place_witness:
  "Sorted insertionSort (Suc 0) b_then_a (Some 0)
     = Returns (a_then_b, [Leaf 32 ''a'', Leaf 31 ''b'', Leaf 33 ''c''])
   \<and> map (text_of (Suc 0) b_then_a) [Leaf 32 ''a'', Leaf 31 ''b'', Leaf 33 ''c''] = [''a'', ''b'', ''c'']
   \<and> errs (heap a_then_b 0) = [Leaf 32 ''a'', Leaf 31 ''b'', Leaf 33 ''c'']"
proof -
  have c: "\<And>(key :: err \<Rightarrow> string) xs.
             mset (insertionSort (\<lambda>x y. key x < key y) xs) = mset xs
             \<and> sorted (map key (insertionSort (\<lambda>x y. key x < key y) xs))"
    by (rule insertionSort_contract)
  have t: "\<forall>e\<in>set (errs (heap b_then_a 0)). \<exists>s. err_Error (Suc 0) b_then_a e = Returns s"
    by (simp add: b_then_a_def one_bag_eval err_Error_def)
  have k: "map (text_of (Suc 0) b_then_a) [Leaf 32 ''a'', Leaf 31 ''b'', Leaf 33 ''c''] = [''a'', ''b'', ''c'']"
    by (simp add: text_of_def err_Error_def)
  from C4_Sorted_in_place[of insertionSort b_then_a 0 "Suc 0", OF c t]
  obtain ys where r: "Sorted insertionSort (Suc 0) b_then_a (Some 0)
                = Returns (b_then_a\<lparr>heap := (heap b_then_a)(0 := (heap b_then_a 0)\<lparr>errs := ys\<rparr>)\<rparr>, ys)"
    and m: "mset ys = mset (errs (heap b_then_a 0))"
    and s: "sorted (map (text_of (Suc 0) b_then_a) ys)"
    by blast
  have e: "errs (heap b_then_a 0) = [Leaf 31 ''b'', Leaf 32 ''a'', Leaf 33 ''c'']"
    by (simp add: b_then_a_def one_bag_eval)
  have "ys = insertionSort (\<lambda>x y. text_of (Suc 0) b_then_a x < text_of (Suc 0) b_then_a y)
               (errs (heap b_then_a 0))"
    using r by (simp add: Sorted_def Let_def e text_of_def err_Error_def)
  then have y: "ys = [Leaf 32 ''a'', Leaf 31 ''b'', Leaf 33 ''c'']"
    by (simp add: e insertionSort_def text_of_def err_Error_def)
  have "b_then_a\<lparr>heap := (heap b_then_a)(0 := (heap b_then_a 0)\<lparr>errs := ys\<rparr>)\<rparr> = a_then_b"
    by (simp add: y b_then_a_def a_then_b_def append_errs_def one_bag_eval)
  with r y k show ?thesis by (simp add: a_then_b_def one_bag_eval)
qed

subsection \<open>C5: Add with extras\<close>

text \<open>
  C5 as stated does not hold. With a nil first argument \<^verbatim>\<open>Add\<close> returns before it looks
  at the extras: on a fresh collector, \<^verbatim>\<open>Add(nil, f5, extra)\<close> returns the absent value,
  invokes nothing and stores nothing, although folding these extras (second line) invokes
  \<open>f5\<close> and stores two errors. And an absent result does not need a nil first argument:
  adding the empty collector to itself returns the absent value too (third line).
\<close>

theorem C5_counterexample:
  "Add (Suc 0) f5_fails one_bag (Some 0) None [IFunc (Some 5), IErr (Leaf 9 ''extra'')]
     = Returns (one_bag, None)
   \<and> stash (Suc 0) f5_fails one_bag (Some 0) [IFunc (Some 5), IErr (Leaf 9 ''extra'')]
     = Returns ((append_errs one_bag 0 [Leaf 7 ''f1 failed'', Leaf 9 ''extra''])\<lparr>calls := [5]\<rparr>)
   \<and> Add (Suc (Suc 0)) f5_fails one_bag (Some 0) (Some (BagPtr (Some 0))) [] = Returns (one_bag, None)"
  by (simp add: Add_def ErrorOrNil_def one_bag_eval stash_def f5_fails_def AsErrorBag_def append_err_eq)

text \<open>
  C5, amended. With a nil first argument \<^verbatim>\<open>Add\<close> ignores the extras: the state is
  unchanged and the result is \<^verbatim>\<open>ErrorOrNil()\<close>. With a non-nil first argument \<open>e\<close> (and
  extras that are errors, callbacks or nil) the call inserts the flattening of \<open>e\<close>, then
  folds the extras in order: an error extra is inserted, a callback extra is invoked at
  once (it is logged) and its non-nil result inserted. Whenever \<^verbatim>\<open>Add\<close> returns, its
  result is \<^verbatim>\<open>ErrorOrNil()\<close> of the final state: absent exactly when the collector holds
  no error then, and the collector itself otherwise. \<^verbatim>\<open>New\<close> with a non-collector primary
  error is \<^verbatim>\<open>Add\<close> on the absent collector, so both fold their extras in the same way.
\<close>

theorem C5_Add_amended:
  "Add n orc st eb None extras = Returns (st, ErrorOrNil st eb)
   \<and> (IOther \<notin> set extras \<longrightarrow>
        Add (Suc n) orc st (Some a) (Some e) extras =
          (case those (map (flatten (Suc n) (heap st) a) (e # concat (map (item_errs orc) extras))) of
             None \<Rightarrow> OutOfFuel
           | Some xss \<Rightarrow>
               Returns ((append_errs st a (concat xss))\<lparr>calls := calls st @ concat (map item_calls extras)\<rparr>,
                        ErrorOrNil ((append_errs st a (concat xss))\<lparr>calls := calls st @ concat (map item_calls extras)\<rparr>)
                          (Some a))))
   \<and> (Add m orc st (Some a) err extras = Returns (st', r) \<longrightarrow>
        r = ErrorOrNil st' (Some a)
        \<and> (r = None \<longleftrightarrow> errs (heap st' a) = [])
        \<and> (r \<noteq> None \<longleftrightarrow> r = Some (BagPtr (Some a))))
   \<and> (AsErrorBag (Some e) = None \<longrightarrow>
        New m orc st (Some e) extras =
          (case Add m orc st None (Some e) extras of
             Returns (st', r) \<Rightarrow> Returns (st', Some (nxt st))
           | Panics \<Rightarrow> Panics
           | OutOfFuel \<Rightarrow> OutOfFuel))"
proof -
  have 1: "Add n orc st eb None extras = Returns (st, ErrorOrNil st eb)"
    by (simp add: Add_def)
  have 3: "Add m orc st (Some a) err extras = Returns (st', r) \<Longrightarrow>
        r = ErrorOrNil st' (Some a)
        \<and> (r = None \<longleftrightarrow> errs (heap st' a) = [])
        \<and> (r \<noteq> None \<longleftrightarrow> r = Some (BagPtr (Some a)))"
    by (drule Add_result) (simp add: ErrorOrNil_def)
  have 4: "AsErrorBag (Some e) = None \<Longrightarrow>
        New m orc st (Some e) extras =
          (case Add m orc st None (Some e) extras of
             Returns (st', r) \<Rightarrow> Returns (st', Some (nxt st))
           | Panics \<Rightarrow> Panics
           | OutOfFuel \<Rightarrow> OutOfFuel)"
    by (simp add: New_def Add_def alloc_def split: outcome.splits prod.splits)
  from 1 3 4 Add_effect[of extras n orc st a e] show ?thesis by blast
qed


theorem C5_Add_amended_witness:
  "Add 0 f5_fails one_bag (Some 0) None [IFunc (Some 5), IErr (Leaf 9 ''extra'')]
     = Returns (one_bag, None)
   \<and> Add (Suc 0) f5_fails one_bag (Some 0) (Some (Leaf 8 ''main'')) [IFunc (Some 5), IErr (Leaf 9 ''extra'')]
     = Returns ((append_errs one_bag 0 [Leaf 8 ''main'', Leaf 7 ''f1 failed'', Leaf 9 ''extra''])\<lparr>calls := [5]\<rparr>,
                Some (BagPtr (Some 0)))
   \<and> New (Suc 0) f5_fails init_state (Some (Leaf 8 ''main'')) [IFunc (Some 5), IErr (Leaf 9 ''extra'')]
     = Returns ((append_errs one_bag 0 [Leaf 8 ''main'', Leaf 7 ''f1 failed'', Leaf 9 ''extra''])\<lparr>calls := [5]\<rparr>,
                Some 0)"
proof -
  note th = C5_Add_amended[of 0 f5_fails one_bag "Some 0" "[IFunc (Some 5), IErr (Leaf 9 ''extra'')]"
              0 "Leaf 8 ''main''"]
  have x: "IOther \<notin> set [IFunc (Some 5), IErr (Leaf 9 ''extra'')]" by simp
  have n: "ErrorOrNil one_bag (Some 0) = None" by (simp add: ErrorOrNil_def one_bag_eval)
  have e: "ErrorOrNil ((append_errs one_bag 0 [Leaf 8 ''main'', Leaf 7 ''f1 failed'', Leaf 9 ''extra''])\<lparr>calls := [5]\<rparr>)
             (Some 0) = Some (BagPtr (Some 0))"
    by (simp add: ErrorOrNil_def)
  have 1: "Add 0 f5_fails one_bag (Some 0) None [IFunc (Some 5), IErr (Leaf 9 ''extra'')]
     = Returns (one_bag, None)"
    using th n by simp
  have 2: "Add (Suc 0) f5_fails one_bag (Some 0) (Some (Leaf 8 ''main'')) [IFunc (Some 5), IErr (Leaf 9 ''extra'')]
     = Returns ((append_errs one_bag 0 [Leaf 8 ''main'', Leaf 7 ''f1 failed'', Leaf 9 ''extra''])\<lparr>calls := [5]\<rparr>,
                Some (BagPtr (Some 0)))"
    using th x e by (simp add: f5_fails_def AsErrorBag_def one_bag_eval)
  have a: "Add (Suc 0) f5_fails init_state None (Some (Leaf 8 ''main'')) [IFunc (Some 5), IErr (Leaf 9 ''extra'')]
     = Returns ((append_errs one_bag 0 [Leaf 8 ''main'', Leaf 7 ''f1 failed'', Leaf 9 ''extra''])\<lparr>calls := [5]\<rparr>,
                Some (BagPtr (Some 0)))"
    by (simp add: Add_def stash_def f5_fails_def AsErrorBag_def ErrorOrNil_def append_err_def
                  append_errs_def one_bag_def alloc_def init_state_def new_ErrorBag_def)
  have 3: "New (Suc 0) f5_fails init_state (Some (Leaf 8 ''main'')) [IFunc (Some 5), IErr (Leaf 9 ''extra'')]
     = Returns ((append_errs one_bag 0 [Leaf 8 ''main'', Leaf 7 ''f1 failed'', Leaf 9 ''extra''])\<lparr>calls := [5]\<rparr>,
                Some 0)"
    using C5_Add_amended[of 0 f5_fails init_state None "[IFunc (Some 5), IErr (Leaf 9 ''extra'')]"
              0 "Leaf 8 ''main''" "Suc 0"] a
    by (simp add: AsErrorBag_def init_state_def)
  show ?thesis using 1 2 3 by simp
qed

subsection \<open>C6: New with a nil primary error\<close>

text \<open>
  C6. \<^verbatim>\<open>New(nil, others...)\<close> returns the nil pointer, not an empty collector, and leaves
  the state as it was: nothing is allocated, and the call log is unchanged, so no
  callback among the extras was invoked.
\<close>

theorem C6_New_nil_primary:
  "New n orc st None others = Returns (st, None)"
  by (simp add: New_def)

subsection \<open>C7: merging the same collector twice\<close>




subsection \<open>C8: the combined text\<close>

text \<open>
  C8. \<^verbatim>\<open>Error()\<close> of a collector: the empty string when nothing is stored; when exactly
  one error is stored, whatever that error's own \<^verbatim>\<open>Error()\<close> yields (its text, for an
  ordinary error); and when more than one is stored, the text
  \<^verbatim>\<open>encountered N errors\<close> where \<open>N\<close> is the decimal numeral of the number of stored
  errors.
\<close>

theorem C8_Error_rendering:
  "(errs (heap st a) = [] \<longrightarrow> Error (Suc n) st (Some a) = Returns '''')
   \<and> (errs (heap st a) = [e] \<longrightarrow> Error (Suc n) st (Some a) = err_Error n st e)
   \<and> err_Error n st (Leaf i s) = Returns s
   \<and> (1 < length (errs (heap st a)) \<longrightarrow>
        Error (Suc n) st (Some a)
          = Returns (''encountered '' @ itoa (length (errs (heap st a))) @ '' errors''))
   \<and> decimal_value (itoa (length (errs (heap st a)))) = length (errs (heap st a))"
  by (simp add: err_Error_def decimal_value_itoa split: err.splits)

text \<open>The examples of the specification: no error, one error with text x, three errors.\<close>

theorem C8_Error_rendering_witness:
  "Error (Suc 0) one_bag (Some 0) = Returns ''''
   \<and> Error (Suc 0) one_error (Some 0) = Returns ''x''
   \<and> Error (Suc 0) three_errors (Some 0) = Returns ''encountered 3 errors''"
proof -
  have i: "itoa (Suc (Suc (Suc 0))) = ''3''" by (simp add: itoa.simps)
  have 1: "Error (Suc 0) one_bag (Some 0) = Returns ''''"
    using C8_Error_rendering[of one_bag 0 0] by (simp add: one_bag_eval del: Error.simps)
  have 2: "Error (Suc 0) one_error (Some 0) = Returns ''x''"
    using C8_Error_rendering[of one_error 0 0 "Leaf 21 ''x''" 21 "''x''"]
    by (simp add: sample_errs del: Error.simps)
  have 3: "Error (Suc 0) three_errors (Some 0) = Returns ''encountered 3 errors''"
    using C8_Error_rendering[of three_errors 0 0] i by (simp add: sample_errs del: Error.simps)
  from 1 2 3 show ?thesis by simp
qed

subsection \<open>C9: wrapping a collector\<close>

text \<open>
  C9. On a collector \<open>a\<close> with a wrapper \<open>w\<close> installed, \<^verbatim>\<open>Wrap\<close> of a value that reduces to
  a collector \<open>b\<close>: if \<open>b\<close> is \<open>a\<close> itself nothing changes and the receiver is returned;
  otherwise \<^verbatim>\<open>Wrap\<close> is called on each stored error of \<open>b\<close>, in order, and then the
  receiver is returned. When \<open>b\<close> holds ordinary errors that the wrapper maps to ordinary
  errors (or to nil), the effect is that the transformed errors are appended one by one,
  in order, to the stored errors of \<open>a\<close>: the sub-collector is never stored or transformed
  as one value.
\<close>

theorem C9_Wrap_collector:
  assumes "wrapper (heap st a) = Some w" and "AsErrorBag (Some e) = Some b"
  shows "(b = a \<longrightarrow> Wrap (Suc n) orc st (Some a) (Some e) = Returns (st, Some (BagPtr (Some a))))
       \<and> (b \<noteq> a \<longrightarrow>
            Wrap (Suc n) orc st (Some a) (Some e) =
              (case range_loop (\<lambda>x s. discard (Wrap n orc s (Some a) (Some x))) (errs (heap st b)) st of
                 Returns st' \<Rightarrow> Returns (st', Some (BagPtr (Some a)))
               | Panics \<Rightarrow> Panics
               | OutOfFuel \<Rightarrow> OutOfFuel))
       \<and> (b \<noteq> a \<and> (\<forall>x\<in>set (errs (heap st b)).
                        AsErrorBag (Some x) = None \<and> (\<forall>y. w x = Some y \<longrightarrow> AsErrorBag (Some y) = None)) \<longrightarrow>
            Wrap (Suc (Suc (Suc n))) orc st (Some a) (Some e) =
              Returns (append_errs st a (List.map_filter w (errs (heap st b))), Some (BagPtr (Some a))))
       \<and> List.map_filter w (errs (heap st b))
            = map (the \<circ> w) (filter (\<lambda>x. w x \<noteq> None) (errs (heap st b)))"
proof -
  have 1: "b = a \<Longrightarrow> Wrap (Suc n) orc st (Some a) (Some e) = Returns (st, Some (BagPtr (Some a)))"
    using assms by simp
  have 2: "b \<noteq> a \<Longrightarrow>
            Wrap (Suc n) orc st (Some a) (Some e) =
              (case range_loop (\<lambda>x s. discard (Wrap n orc s (Some a) (Some x))) (errs (heap st b)) st of
                 Returns st' \<Rightarrow> Returns (st', Some (BagPtr (Some a)))
               | Panics \<Rightarrow> Panics
               | OutOfFuel \<Rightarrow> OutOfFuel)"
    using assms by (simp add: Visit_def)
  have 3: "b \<noteq> a \<and> (\<forall>x\<in>set (errs (heap st b)).
                        AsErrorBag (Some x) = None \<and> (\<forall>y. w x = Some y \<longrightarrow> AsErrorBag (Some y) = None)) \<Longrightarrow>
            Wrap (Suc (Suc (Suc n))) orc st (Some a) (Some e) =
              Returns (append_errs st a (List.map_filter w (errs (heap st b))), Some (BagPtr (Some a)))"
  proof -
    assume h: "b \<noteq> a \<and> (\<forall>x\<in>set (errs (heap st b)).
                        AsErrorBag (Some x) = None \<and> (\<forall>y. w x = Some y \<longrightarrow> AsErrorBag (Some y) = None))"
    from Wrap_loop_plain[OF assms(1), of "errs (heap st b)" n orc] h
    have "range_loop (\<lambda>x s. discard (Wrap (Suc (Suc n)) orc s (Some a) (Some x))) (errs (heap st b)) st =
           Returns (append_errs st a (List.map_filter w (errs (heap st b))))" by blast
    with assms h show ?thesis
      by (subst Wrap.simps) (simp add: Visit_def del: Wrap.simps)
  qed
  have 4: "List.map_filter w (errs (heap st b))
            = map (the \<circ> w) (filter (\<lambda>x. w x \<noteq> None) (errs (heap st b)))"
    by (simp add: List.map_filter_def)
  from 1 2 3 4 show ?thesis by blast
qed

text \<open>
  Wrapping collector 2 into collector 0 tags each of its two errors; wrapping
  collector 0 into itself, through an embedding three levels deep, changes nothing.
\<close>

theorem C9_Wrap_collector_witness:
  "Wrap (Suc (Suc (Suc 0))) no_callbacks wrap_store (Some 0) (Some (BagPtr (Some 2)))
     = Returns (append_errs wrap_store 0 [Leaf 10 ''tagged: b one'', Leaf 11 ''tagged: b two''],
                Some (BagPtr (Some 0)))
   \<and> Wrap (Suc 0) no_callbacks wrap_store (Some 0) (Some (Embedding 3 0))
     = Returns (wrap_store, Some (BagPtr (Some 0)))"
proof -
  have w: "wrapper (heap wrap_store 0) = Some tag" by (rule wrap_store_eval)
  have b: "AsErrorBag (Some (BagPtr (Some 2))) = Some 2" by (simp add: AsErrorBag_def)
  have s: "AsErrorBag (Some (Embedding 3 0)) = Some 0" by (simp add: AsErrorBag_def)
  have p: "(2::nat) \<noteq> 0 \<and> (\<forall>x\<in>set (errs (heap wrap_store 2)).
              AsErrorBag (Some x) = None \<and> (\<forall>y. tag x = Some y \<longrightarrow> AsErrorBag (Some y) = None))"
    by (auto simp: wrap_store_eval AsErrorBag_def tag_def)
  have m: "List.map_filter tag (errs (heap wrap_store 2)) = [Leaf 10 ''tagged: b one'', Leaf 11 ''tagged: b two'']"
    by (simp add: wrap_store_eval List.map_filter_simps tag_def)
  have 1: "Wrap (Suc (Suc (Suc 0))) no_callbacks wrap_store (Some 0) (Some (BagPtr (Some 2)))
     = Returns (append_errs wrap_store 0 [Leaf 10 ''tagged: b one'', Leaf 11 ''tagged: b two''],
                Some (BagPtr (Some 0)))"
    using C9_Wrap_collector[OF w b, of 0 no_callbacks] p m by (simp del: Wrap.simps)
  have 2: "Wrap (Suc 0) no_callbacks wrap_store (Some 0) (Some (Embedding 3 0))
     = Returns (wrap_store, Some (BagPtr (Some 0)))"
    using C9_Wrap_collector[OF w s, of 0 no_callbacks] by (simp del: Wrap.simps)
  from 1 2 show ?thesis by simp
qed

subsection \<open>C10: Return keeps the pending list\<close>

text \<open>
  C10. \<^verbatim>\<open>Return\<close> does not clear the list of deferred callbacks: after it returns, the
  pending list of the collector is what it was. A second \<^verbatim>\<open>Return()\<close> therefore invokes
  every callback again, in the same order, and appends every non-nil result a second
  time.
\<close>

theorem C10_Return_keeps_deferred:
  assumes "stash n orc st (Some a) extras = Returns st1"
    and "defers (heap st a) = map Some fs"
  shows "Return n orc st (Some a) extras
           = Returns (deferred_done orc st1 a fs, ErrorOrNil (deferred_done orc st1 a fs) (Some a))
       \<and> defers (heap (deferred_done orc st1 a fs) a) = map Some fs
       \<and> Return n orc (deferred_done orc st1 a fs) (Some a) []
           = Returns (deferred_done orc (deferred_done orc st1 a fs) a fs,
                      ErrorOrNil (deferred_done orc (deferred_done orc st1 a fs) a fs) (Some a))
       \<and> calls (deferred_done orc (deferred_done orc st1 a fs) a fs) = calls st1 @ fs @ fs
       \<and> errs (heap (deferred_done orc (deferred_done orc st1 a fs) a fs) a)
           = errs (heap st1 a) @ List.map_filter orc fs @ List.map_filter orc fs
       \<and> (Return m orc s (Some a) items = Returns (s', r') \<longrightarrow> defers (heap s' a) = defers (heap s a))"
proof -
  have d1: "defers (heap st1 a) = map Some fs"
    using stash_defers[OF assms(1), of a] assms(2) by simp
  have d2: "defers (heap (deferred_done orc st1 a fs) a) = map Some fs"
    using d1 by (simp add: deferred_done_def)
  have s2: "stash n orc (deferred_done orc st1 a fs) (Some a) [] = Returns (deferred_done orc st1 a fs)"
    by simp
  have "Return m orc s (Some a) items = Returns (s', r') \<Longrightarrow> defers (heap s' a) = defers (heap s a)"
    by (rule Return_defers)
  then show ?thesis
    using Return_effect[OF assms] Return_effect[OF s2 d2] d2
    by (simp add: deferred_done_def)
qed

theorem C10_Return_keeps_deferred_witness:
  "Return 0 f5_fails two_deferred (Some 0) []
     = Returns (deferred_done f5_fails two_deferred 0 [5, 6], Some (BagPtr (Some 0)))
   \<and> defers (heap (deferred_done f5_fails two_deferred 0 [5, 6]) 0) = [Some 5, Some 6]
   \<and> Return 0 f5_fails (deferred_done f5_fails two_deferred 0 [5, 6]) (Some 0) []
     = Returns (deferred_done f5_fails (deferred_done f5_fails two_deferred 0 [5, 6]) 0 [5, 6],
                Some (BagPtr (Some 0)))
   \<and> calls (deferred_done f5_fails (deferred_done f5_fails two_deferred 0 [5, 6]) 0 [5, 6]) = [5, 6, 5, 6]
   \<and> errs (heap (deferred_done f5_fails (deferred_done f5_fails two_deferred 0 [5, 6]) 0 [5, 6]) 0)
       = [Leaf 7 ''f1 failed'', Leaf 7 ''f1 failed'']"
proof -
  have 1: "stash 0 f5_fails two_deferred (Some 0) [] = Returns two_deferred" by simp
  have 2: "defers (heap two_deferred 0) = map Some [5, 6]" by (rule two_deferred_eval)
  have 3: "List.map_filter f5_fails [5, 6] = [Leaf 7 ''f1 failed'']"
    by (simp add: List.map_filter_simps f5_fails_def)
  have 4: "ErrorOrNil (deferred_done f5_fails two_deferred 0 [5, 6]) (Some 0) = Some (BagPtr (Some 0))"
    "ErrorOrNil (deferred_done f5_fails (deferred_done f5_fails two_deferred 0 [5, 6]) 0 [5, 6]) (Some 0)
       = Some (BagPtr (Some 0))"
    by (simp_all add: ErrorOrNil_def deferred_done_def f5_fails_def two_deferred_eval)
  show ?thesis
    using C10_Return_keeps_deferred[OF 1 2] 3 4
    by (simp add: two_deferred_eval)
qed

end
